theory Spec2Isabelle
  imports Main
begin

section \<open>Constants of simplisafe.js\<close>

text \<open>All durations and instants are milliseconds, as in the source
  (\<^verbatim>\<open>Date.now()\<close>, \<^verbatim>\<open>setTimeout\<close>). The values stay far below \<open>2^53\<close>,
  where JavaScript numbers are exact integers, so they are natural numbers here.\<close>

definition subscriptionCacheTime :: nat where
  "subscriptionCacheTime = 3000"

definition rateLimitInitialInterval :: nat where
  "rateLimitInitialInterval = 60000"

definition rateLimitMaxInterval :: nat where
  "rateLimitMaxInterval = 2 * 60 * 60 * 1000"

definition sensorRefreshLockoutDuration :: nat where
  "sensorRefreshLockoutDuration = 15000"

definition SOCKET_RETRY_INTERVAL :: nat where
  "SOCKET_RETRY_INTERVAL = 1000"

definition validAlarmStates :: "string list" where
  "validAlarmStates = [''off'', ''home'', ''away'']"

datatype EVENT_TYPES =
    ALARM_TRIGGER | ALARM_OFF | ALARM_DISARM | ALARM_CANCEL
  | HOME_EXIT_DELAY | HOME_ARM | AWAY_EXIT_DELAY | AWAY_ARM
  | MOTION | ENTRY | CAMERA_MOTION | DOORBELL
  | DOORLOCK_LOCKED | DOORLOCK_UNLOCKED | DOORLOCK_ERROR
  | CONNECTED | DISCONNECT | CONNECTION_LOST

section \<open>Values exchanged with the upstream service\<close>

text \<open>A JSON object received from the service (a response body, or an object thrown as an
  error), reduced to the fields the code reads. \<open>None\<close> is JavaScript's \<^verbatim>\<open>undefined\<close>.
  \<open>statusCode\<close> holds \<^verbatim>\<open>parseInt(err.statusCode)\<close>, with \<open>None\<close> for \<^verbatim>\<open>NaN\<close>;
  \<open>hasResponse\<close> tells whether the object has a \<^verbatim>\<open>response\<close> property.\<close>

record payload =
  subscription :: "string option"
  state :: string
  exitDelay :: "nat option"
  statusCode :: "int option"
  status :: "nat option"
  hasResponse :: bool
  dataLength :: nat

text \<open>What an \<^verbatim>\<open>async\<close> method of the client can reject with.\<close>

datatype thrown =
    RateLimitError
  | InvalidTargetState
  | NoMatchingPlans
  | MultiplePlans
  | TypeError
  | Obj payload

text \<open>The outcome of \<^verbatim>\<open>ssApi.request\<close>: a response, an error without a response, or an
  error response with its HTTP status and body.\<close>

datatype http_result = Success payload | NoResponse | Failure nat payload

text \<open>The requests the modelled methods send.\<close>

datatype url =
    GetSubscriptionUrl nat
  | PostAlarmState "nat option" string
  | OtherUrl string

section \<open>The client state\<close>

text \<open>Timers of the runtime that are still scheduled: identifier, due time and action.
  \<^verbatim>\<open>setInterval\<close> timers carry their period.\<close>

datatype action =
    EvictSubscription nat
  | LockoutExpire
  | SensorRefresh nat

type_synonym timer = "nat \<times> nat \<times> action"

text \<open>The promise returned by one call of \<^verbatim>\<open>this.request\<close>, with the continuation the
  calling method chained on it.\<close>

datatype cont = Plain | SubscriptionCache nat | AlarmState

datatype pstatus = InFlight bool | Refreshing | Settled "thrown + payload"

record promise =
  params :: url
  continuation :: cont
  pstate :: pstatus

record client =
  isBlocked :: bool
  nextBlockInterval :: nat
  nextAttempt :: nat
  subId :: "nat option"
  lastSubscriptionRequests :: "nat \<Rightarrow> nat option"
  sensorRefreshTime :: nat
  sensorRefreshInterval :: "nat option"
  sensorRefreshLockoutTimeout :: "nat option"
  sensorRefreshLockoutEnabled :: bool
  sensorSubscriptions :: "(string \<times> nat) list"
  timers :: "timer list"
  nextTimerId :: nat
  promises :: "nat \<Rightarrow> promise option"
  nextHandle :: nat
  netLog :: "url list"

text \<open>The state the constructor leaves, for a given polling period.\<close>

definition initial :: "nat \<Rightarrow> client" where
  "initial refreshTime =
     \<lparr> isBlocked = False,
       nextBlockInterval = rateLimitInitialInterval,
       nextAttempt = 0,
       subId = None,
       lastSubscriptionRequests = (\<lambda>_. None),
       sensorRefreshTime = refreshTime,
       sensorRefreshInterval = None,
       sensorRefreshLockoutTimeout = None,
       sensorRefreshLockoutEnabled = False,
       sensorSubscriptions = [],
       timers = [],
       nextTimerId = 0,
       promises = (\<lambda>_. None),
       nextHandle = 0,
       netLog = [] \<rparr>"

section \<open>Timers\<close>

text \<open>The delay the runtime gives a timer: \<^verbatim>\<open>setTimeout\<close> and \<^verbatim>\<open>setInterval\<close> of Node
  set a delay below 1 or above \<open>2^31 - 1\<close> milliseconds (also an infinite one) to 1.\<close>

definition timerDelay :: "nat \<Rightarrow> nat" where
  "timerDelay delay = (if 1 \<le> delay \<and> delay \<le> 2147483647 then delay else 1)"

definition setTimer :: "nat \<Rightarrow> nat \<Rightarrow> action \<Rightarrow> client \<Rightarrow> nat \<times> client" where
  "setTimer now delay a s =
     (nextTimerId s,
      s\<lparr>timers := timers s @ [(nextTimerId s, now + timerDelay delay, a)],
        nextTimerId := nextTimerId s + 1\<rparr>)"

text \<open>\<^verbatim>\<open>clearTimeout\<close> and \<^verbatim>\<open>clearInterval\<close>: the handle may be \<^verbatim>\<open>undefined\<close> or name a
  timer that is gone; both do nothing then.\<close>

definition clearTimer :: "nat option \<Rightarrow> client \<Rightarrow> client" where
  "clearTimer h s =
     (case h of
        None \<Rightarrow> s
      | Some i \<Rightarrow> s\<lparr>timers := filter (\<lambda>t. fst t \<noteq> i) (timers s)\<rparr>)"

section \<open>Rate-limit guard\<close>

definition resetRateLimitHandler :: "client \<Rightarrow> client" where
  "resetRateLimitHandler s =
     s\<lparr>isBlocked := False, nextBlockInterval := rateLimitInitialInterval\<rparr>"

definition setRateLimitHandler :: "nat \<Rightarrow> client \<Rightarrow> client" where
  "setRateLimitHandler now s =
     s\<lparr>isBlocked := True,
       nextAttempt := now + nextBlockInterval s,
       nextBlockInterval :=
         (if nextBlockInterval s < rateLimitMaxInterval
          then nextBlockInterval s * 2
          else nextBlockInterval s)\<rparr>"

section \<open>Sensor-refresh lockout\<close>

definition handleSensorRefreshLockout :: "nat \<Rightarrow> client \<Rightarrow> client" where
  "handleSensorRefreshLockout now s =
     (if \<not> sensorRefreshLockoutEnabled s then s
      else
        let s1 = clearTimer (sensorRefreshLockoutTimeout s) s;
            (i, s2) = setTimer now sensorRefreshLockoutDuration LockoutExpire s1
        in s2\<lparr>sensorRefreshLockoutTimeout := Some i\<rparr>)"

section \<open>Authenticated request executor\<close>

text \<open>An \<^verbatim>\<open>async\<close> method runs in segments: from its call to its first \<^verbatim>\<open>await\<close>, and
  from each awaited result to the next \<^verbatim>\<open>await\<close>. Each segment is a state transformer
  here, taking the value of \<^verbatim>\<open>Date.now()\<close>; the awaited results (HTTP responses, the
  outcome of the credential refresh, timers) come from outside.

  \<open>settle\<close> is the moment the promise \<open>h\<close> of a call of \<^verbatim>\<open>this.request\<close> settles with
  \<open>r\<close>: the continuation chained by the calling method runs (the \<^verbatim>\<open>finally\<close> of
  getSubscription, the rest of setAlarmState).\<close>

definition settle :: "nat \<Rightarrow> nat \<Rightarrow> thrown + payload \<Rightarrow> client \<Rightarrow> client" where
  "settle now h r s =
     (case promises s h of
        None \<Rightarrow> s
      | Some p \<Rightarrow>
          let s1 = s\<lparr>promises := (promises s)(h \<mapsto> p\<lparr>pstate := Settled r\<rparr>)\<rparr>
          in (case continuation p of
                Plain \<Rightarrow> s1
              | SubscriptionCache k \<Rightarrow>
                  snd (setTimer now subscriptionCacheTime (EvictSubscription k) s1)
              | AlarmState \<Rightarrow>
                  (case r of
                     Inl e \<Rightarrow> s1
                   | Inr d \<Rightarrow> handleSensorRefreshLockout now s1)))"

text \<open>The call \<^verbatim>\<open>this.request(params)\<close> up to its first \<^verbatim>\<open>await\<close>: the guard, then the
  HTTP call. A blocked call returns a promise that is already rejected; its continuation
  runs before any other event.\<close>

definition request :: "nat \<Rightarrow> url \<Rightarrow> cont \<Rightarrow> client \<Rightarrow> nat \<times> client" where
  "request now u c s =
     (let h = nextHandle s;
          s1 = s\<lparr>promises := (promises s)(h \<mapsto>
                    \<lparr>params = u, continuation = c, pstate = InFlight False\<rparr>),
                 nextHandle := h + 1\<rparr>
      in if isBlocked s \<and> now < nextAttempt s
         then (h, settle now h (Inl RateLimitError) s1)
         else (h, s1\<lparr>netLog := netLog s1 @ [u]\<rparr>))"

definition status_of :: "thrown \<Rightarrow> nat option" where
  "status_of e = (case e of Obj p \<Rightarrow> status p | _ \<Rightarrow> None)"

definition has_response :: "thrown \<Rightarrow> bool" where
  "has_response e = (case e of Obj p \<Rightarrow> hasResponse p | _ \<Rightarrow> False)"

text \<open>The \<^verbatim>\<open>catch\<close> chained after the credential refresh and the retried request.
  Reading \<^verbatim>\<open>err.response.data\<close> of an error without \<^verbatim>\<open>response\<close> is a TypeError.\<close>

definition refreshCatch :: "nat \<Rightarrow> thrown \<Rightarrow> client \<Rightarrow> thrown \<times> client" where
  "refreshCatch now err s =
     (if status_of err = Some 403
      then (if has_response err then RateLimitError else TypeError,
            setRateLimitHandler now s)
      else (err, s))"

definition throwFrom :: "nat \<Rightarrow> nat \<Rightarrow> bool \<Rightarrow> thrown \<Rightarrow> client \<Rightarrow> client" where
  "throwFrom now h tokenRefreshed e s =
     (if tokenRefreshed
      then (let (e', s') = refreshCatch now e s in settle now h (Inl e') s')
      else settle now h (Inl e) s)"

text \<open>The awaited \<^verbatim>\<open>ssApi.request\<close> of promise \<open>h\<close> comes back with \<open>r\<close>.\<close>

definition requestResponse :: "nat \<Rightarrow> nat \<Rightarrow> http_result \<Rightarrow> client \<Rightarrow> client" where
  "requestResponse now h r s =
     (case promises s h of
        None \<Rightarrow> s
      | Some p \<Rightarrow>
          (case pstate p of
             InFlight tokenRefreshed \<Rightarrow>
               (case r of
                  Success d \<Rightarrow> settle now h (Inr d) (resetRateLimitHandler s)
                | NoResponse \<Rightarrow> throwFrom now h tokenRefreshed RateLimitError s
                | Failure code body \<Rightarrow>
                    if code = 401 \<and> \<not> tokenRefreshed
                    then s\<lparr>promises := (promises s)(h \<mapsto> p\<lparr>pstate := Refreshing\<rparr>)\<rparr>
                    else if code = 403
                    then throwFrom now h tokenRefreshed RateLimitError
                           (setRateLimitHandler now s)
                    else throwFrom now h tokenRefreshed (Obj body) s)
           | Refreshing \<Rightarrow> s
           | Settled x \<Rightarrow> s))"

text \<open>\<^verbatim>\<open>authManager.refreshCredentials()\<close> resolved: \<^verbatim>\<open>this.request(params, true)\<close>.\<close>

definition refreshResolved :: "nat \<Rightarrow> nat \<Rightarrow> client \<Rightarrow> client" where
  "refreshResolved now h s =
     (case promises s h of
        None \<Rightarrow> s
      | Some p \<Rightarrow>
          (case pstate p of
             Refreshing \<Rightarrow>
               if isBlocked s \<and> now < nextAttempt s
               then throwFrom now h True RateLimitError s
               else s\<lparr>promises := (promises s)(h \<mapsto> p\<lparr>pstate := InFlight True\<rparr>),
                      netLog := netLog s @ [params p]\<rparr>
           | InFlight b \<Rightarrow> s
           | Settled x \<Rightarrow> s))"

definition refreshRejected :: "nat \<Rightarrow> nat \<Rightarrow> thrown \<Rightarrow> client \<Rightarrow> client" where
  "refreshRejected now h err s =
     (case promises s h of
        None \<Rightarrow> s
      | Some p \<Rightarrow>
          (case pstate p of
             Refreshing \<Rightarrow> throwFrom now h True err s
           | InFlight b \<Rightarrow> s
           | Settled x \<Rightarrow> s))"

text \<open>What a caller awaiting promise \<open>h\<close> has received so far.\<close>

definition awaited :: "client \<Rightarrow> nat \<Rightarrow> (thrown + payload) option" where
  "awaited s h =
     (case promises s h of
        None \<Rightarrow> None
      | Some p \<Rightarrow> (case pstate p of Settled r \<Rightarrow> Some r | _ \<Rightarrow> None))"

section \<open>Subscription cache\<close>

text \<open>The answer of the synchronous first segment of a method.\<close>

datatype reply =
    Issued nat
  | Joined nat
  | Throws thrown
  | Discover
  | AwaitSubscription string
  | Ack

text \<open>Lines 281 to 299 of getSubscription, for a resolved subscription id.\<close>

definition cachedSubscription :: "nat \<Rightarrow> nat \<Rightarrow> bool \<Rightarrow> client \<Rightarrow> reply \<times> client" where
  "cachedSubscription now subscriptionId forceRefresh s =
     (let fresh =
            (let (h, s1) = request now (GetSubscriptionUrl subscriptionId)
                             (SubscriptionCache subscriptionId) s
             in (Issued h,
                 s1\<lparr>lastSubscriptionRequests :=
                      (lastSubscriptionRequests s1)(subscriptionId \<mapsto> h)\<rparr>))
      in case lastSubscriptionRequests s subscriptionId of
           None \<Rightarrow> fresh
         | Some h \<Rightarrow> if forceRefresh then fresh else (Joined h, s))"

text \<open>Subscription ids are numbers; \<^verbatim>\<open>!subscriptionId\<close> holds for \<^verbatim>\<open>null\<close>,
  \<^verbatim>\<open>undefined\<close> and 0. Without an id the method awaits getSubscriptions (\<open>Discover\<close>)
  and goes on in \<open>getSubscriptionDiscovered\<close>.\<close>

definition truthy :: "nat option \<Rightarrow> bool" where
  "truthy x = (case x of None \<Rightarrow> False | Some n \<Rightarrow> n \<noteq> 0)"

definition getSubscription :: "nat \<Rightarrow> nat option \<Rightarrow> bool \<Rightarrow> client \<Rightarrow> reply \<times> client" where
  "getSubscription now sub forceRefresh s =
     (case (if truthy sub then sub else subId s) of
        None \<Rightarrow> (Discover, s)
      | Some subscriptionId \<Rightarrow>
          if subscriptionId = 0 then (Discover, s)
          else cachedSubscription now subscriptionId forceRefresh s)"

text \<open>The end of getSubscriptions, after its request: \<open>sids\<close> are the ids of the
  subscriptions left by the two filters, in order.\<close>

definition subscriptionsReceived :: "nat list \<Rightarrow> client \<Rightarrow> client" where
  "subscriptionsReceived sids s =
     (case sids of
        [x] \<Rightarrow> s\<lparr>subId := Some x\<rparr>
      | _ \<Rightarrow> s)"

text \<open>getSubscription after the awaited getSubscriptions returned \<open>sids\<close>.\<close>

definition getSubscriptionDiscovered :: "nat \<Rightarrow> nat list \<Rightarrow> bool \<Rightarrow> client \<Rightarrow> reply \<times> client" where
  "getSubscriptionDiscovered now sids forceRefresh s =
     (case sids of
        [] \<Rightarrow> (Throws NoMatchingPlans, s)
      | [x] \<Rightarrow> cachedSubscription now x forceRefresh s
      | _ \<Rightarrow> (Throws MultiplePlans, s))"



section \<open>setAlarmState\<close>

text \<open>\<^verbatim>\<open>toLowerCase\<close> on the ASCII letters. Outside ASCII, JavaScript lower-cases no
  character to one of the letters of off, home or away, so membership in
  \<open>validAlarmStates\<close> is the same.\<close>

definition toLowerCase :: "string \<Rightarrow> string" where
  "toLowerCase str =
     map (\<lambda>c. let n = (of_char c :: nat)
              in if 65 \<le> n \<and> n \<le> 90 then char_of (n + 32) else c) str"

text \<open>The segment after validation and after the subscription id is known.\<close>

definition postAlarmState :: "nat \<Rightarrow> string \<Rightarrow> client \<Rightarrow> reply \<times> client" where
  "postAlarmState now st s =
     (let (h, s1) = request now (PostAlarmState (subId s) st) AlarmState s
      in (Issued h, s1))"

definition setAlarmState :: "nat \<Rightarrow> string \<Rightarrow> client \<Rightarrow> reply \<times> client" where
  "setAlarmState now newState s =
     (let st = toLowerCase newState
      in if st \<notin> set validAlarmStates then (Throws InvalidTargetState, s)
         else if \<not> truthy (subId s) then (AwaitSubscription st, s)
         else postAlarmState now st s)"

section \<open>Lock hardware\<close>

text \<open>The statement of getLocks after its \<^verbatim>\<open>await\<close> (line 438).\<close>

definition locksObserved :: "payload \<Rightarrow> client \<Rightarrow> client" where
  "locksObserved d s = s\<lparr>sensorRefreshLockoutEnabled := (dataLength d > 0)\<rparr>"

section \<open>Realtime events\<close>

text \<open>An inbound push, reduced to the fields \<^verbatim>\<open>_socketCallback\<close> reads. The callback
  registered by the subscriber is opaque: its invocations are the first component of the
  result, in order.\<close>

record push =
  sid :: "nat option"
  eventType :: string
  eventCid :: nat

type_synonym invocation = "EVENT_TYPES option \<times> push"

definition byEventCid :: "nat \<Rightarrow> push \<Rightarrow> client \<Rightarrow> invocation list \<times> client" where
  "byEventCid now d s =
     (let c = eventCid d
      in if c = 1400 \<or> c = 1407
         then ([(Some ALARM_DISARM, d)], handleSensorRefreshLockout now s)
         else if c = 1406
         then ([(Some ALARM_CANCEL, d)], handleSensorRefreshLockout now s)
         else if c = 1409 then ([(Some MOTION, d)], s)
         else if c = 9441 then ([(Some HOME_EXIT_DELAY, d)], s)
         else if c = 3441 \<or> c = 3491
         then ([(Some HOME_ARM, d)], handleSensorRefreshLockout now s)
         else if c = 9401 \<or> c = 9407 then ([(Some AWAY_EXIT_DELAY, d)], s)
         else if c = 3401 \<or> c = 3407 \<or> c = 3487 \<or> c = 3481
         then ([(Some AWAY_ARM, d)], handleSensorRefreshLockout now s)
         else if c = 1429 then ([(Some ENTRY, d)], s)
         else if c = 1110 \<or> c = 1154 \<or> c = 1159 \<or> c = 1162 \<or> c = 1132
                 \<or> c = 1134 \<or> c = 1120
         then ([(Some ALARM_TRIGGER, d)], s)
         else if c = 1170 then ([(Some CAMERA_MOTION, d)], s)
         else if c = 1458 then ([(Some DOORBELL, d)], s)
         else if c = 9700 then ([(Some DOORLOCK_UNLOCKED, d)], s)
         else if c = 9701 then ([(Some DOORLOCK_LOCKED, d)], s)
         else if c = 9703 then ([(Some DOORLOCK_ERROR, d)], s)
         else if c = 1602 then ([], s)
         else ([(None, d)], s))"

definition socketCallback :: "nat \<Rightarrow> push \<Rightarrow> client \<Rightarrow> invocation list \<times> client" where
  "socketCallback now d s =
     (if sid d \<noteq> subId s then ([], s)
      else if eventType d = ''alarm'' then ([(Some ALARM_TRIGGER, d)], s)
      else if eventType d = ''alarmCancel'' then ([(Some ALARM_OFF, d)], s)
      else byEventCid now d s)"

section \<open>Sensor polling\<close>

text \<open>The handle kept in \<^verbatim>\<open>sensorRefreshInterval\<close> is an object (a positive number in a
  browser), so \<^verbatim>\<open>!this.sensorRefreshInterval\<close> holds exactly while the field is
  \<^verbatim>\<open>undefined\<close>. A subscriber is its sensor id and its callback.\<close>

definition subscribeToSensor :: "nat \<Rightarrow> string \<Rightarrow> nat \<Rightarrow> client \<Rightarrow> client" where
  "subscribeToSensor now ident callback s =
     (let s1 = (if sensorRefreshInterval s = None
                then (let (i, s') = setTimer now (sensorRefreshTime s)
                                      (SensorRefresh (timerDelay (sensorRefreshTime s))) s
                      in s'\<lparr>sensorRefreshInterval := Some i\<rparr>)
                else s)
      in s1\<lparr>sensorSubscriptions := sensorSubscriptions s1 @ [(ident, callback)]\<rparr>)"

definition unsubscribeFromSensor :: "string \<Rightarrow> client \<Rightarrow> client" where
  "unsubscribeFromSensor ident s =
     (let s1 = s\<lparr>sensorSubscriptions :=
                   filter (\<lambda>sub. fst sub \<noteq> ident) (sensorSubscriptions s)\<rparr>
      in if sensorSubscriptions s1 = []
         then clearTimer (sensorRefreshInterval s1) s1
         else s1)"

text \<open>Whether a tick of the polling timer goes on to \<^verbatim>\<open>getSensors(true)\<close>.\<close>

definition sensorTick :: "client \<Rightarrow> bool" where
  "sensorTick s = (sensorSubscriptions s \<noteq> [] \<and> sensorRefreshLockoutTimeout s = None)"

definition isPolling :: "timer \<Rightarrow> bool" where
  "isPolling t = (case snd (snd t) of SensorRefresh p \<Rightarrow> True | _ \<Rightarrow> False)"

text \<open>The polling timers the runtime still has scheduled.\<close>

definition pollingTimers :: "client \<Rightarrow> timer list" where
  "pollingTimers s = filter isPolling (timers s)"

definition lockoutTimers :: "client \<Rightarrow> timer list" where
  "lockoutTimers s = filter (\<lambda>t. snd (snd t) = LockoutExpire) (timers s)"

section \<open>The runtime firing a timer\<close>

text \<open>Timer \<open>i\<close> fires at \<open>now\<close>: nothing happens when it is not scheduled or not yet due.
  A timeout leaves the schedule; an interval is scheduled again one period later.\<close>

definition fireTimer :: "nat \<Rightarrow> nat \<Rightarrow> client \<Rightarrow> client" where
  "fireTimer now i s =
     (case find (\<lambda>t. fst t = i) (timers s) of
        None \<Rightarrow> s
      | Some (j, due, a) \<Rightarrow>
          if now < due then s
          else (case a of
                  EvictSubscription k \<Rightarrow>
                    (clearTimer (Some i) s)
                      \<lparr>lastSubscriptionRequests := (lastSubscriptionRequests s)(k := None)\<rparr>
                | LockoutExpire \<Rightarrow>
                    (clearTimer (Some i) s)\<lparr>sensorRefreshLockoutTimeout := None\<rparr>
                | SensorRefresh period \<Rightarrow>
                    s\<lparr>timers := map (\<lambda>t. if fst t = i then (i, due + period, a) else t)
                                  (timers s)\<rparr>))"

section \<open>Events of one client\<close>

text \<open>Everything that can happen to a client, one synchronous segment at a time. \<open>Request\<close>
  is a call of \<^verbatim>\<open>this.request\<close> by a method that is not modelled further;
  \<open>SocketNotAuthorized\<close> is the socket error of that message reaching the listener that
  debug mode installs, which sets \<^verbatim>\<open>isBlocked\<close>.\<close>

datatype event =
    Request url
  | GetSubscription "nat option" bool
  | SubscriptionsReceived "nat list"
  | ResumeGetSubscription "nat list" bool
  | SetAlarmState string
  | ResumeSetAlarmState string
  | HttpResponse nat http_result
  | RefreshResolved nat
  | RefreshRejected nat thrown
  | TimerFired nat
  | Push push
  | SocketNotAuthorized
  | LocksObserved payload
  | SubscribeToSensor string nat
  | UnsubscribeFromSensor string

definition step :: "client \<Rightarrow> nat \<times> event \<Rightarrow> reply \<times> client" where
  "step s te =
     (let now = fst te
      in case snd te of
           Request u \<Rightarrow> (let (h, s1) = request now u Plain s in (Issued h, s1))
         | GetSubscription sub forceRefresh \<Rightarrow> getSubscription now sub forceRefresh s
         | SubscriptionsReceived sids \<Rightarrow> (Ack, subscriptionsReceived sids s)
         | ResumeGetSubscription sids forceRefresh \<Rightarrow>
             getSubscriptionDiscovered now sids forceRefresh s
         | SetAlarmState newState \<Rightarrow> setAlarmState now newState s
         | ResumeSetAlarmState st \<Rightarrow> postAlarmState now st s
         | HttpResponse h r \<Rightarrow> (Ack, requestResponse now h r s)
         | RefreshResolved h \<Rightarrow> (Ack, refreshResolved now h s)
         | RefreshRejected h err \<Rightarrow> (Ack, refreshRejected now h err s)
         | TimerFired i \<Rightarrow> (Ack, fireTimer now i s)
         | Push d \<Rightarrow> (Ack, snd (socketCallback now d s))
         | SocketNotAuthorized \<Rightarrow> (Ack, s\<lparr>isBlocked := True\<rparr>)
         | LocksObserved d \<Rightarrow> (Ack, locksObserved d s)
         | SubscribeToSensor ident callback \<Rightarrow> (Ack, subscribeToSensor now ident callback s)
         | UnsubscribeFromSensor ident \<Rightarrow> (Ack, unsubscribeFromSensor ident s))"

fun run :: "client \<Rightarrow> (nat \<times> event) list \<Rightarrow> reply list \<times> client" where
  "run s [] = ([], s)"
| "run s (te # tes) =
     (let (r, s1) = step s te;
          (rs, s2) = run s1 tes
      in (r # rs, s2))"

section \<open>The alarm accessory\<close>


text \<open>The fields of the accessory the retry logic uses; \<open>service\<close> tells whether the
  accessory is linked to its Homebridge service.\<close>

record alarm =
  nRetries :: nat
  nSocketConnectFailures :: nat
  service :: bool

text \<open>What the accessory does to the outside: the HomeKit callback, a characteristic
  update, and timers that call \<^verbatim>\<open>setTargetState\<close>, \<^verbatim>\<open>refreshState\<close> or
  \<^verbatim>\<open>startListening\<close> again, with the delay after which the runtime runs them.\<close>

datatype effect =
    CallbackOk
  | CallbackError
  | CurrentStateDisarmed
  | SetFault bool
  | RefreshStateAfter nat
  | RetrySetTargetStateAfter nat
  | StartListeningAfter nat




text \<open>The \<^verbatim>\<open>catch\<close> of \<^verbatim>\<open>startListening\<close>, when \<^verbatim>\<open>subscribeToEvents\<close> threw.
  \<open>retryInterval\<close> is the number \<^verbatim>\<open>(2 ** n) * 1000\<close> the code passes to \<^verbatim>\<open>setTimeout\<close>:
  an exact integer in JavaScript as long as it is finite, and above \<open>2^31 - 1\<close> from a
  count of 22 on, where the runtime runs the timer after 1 millisecond (as it does for
  the infinite value of very large counts).\<close>

definition retryInterval :: "alarm \<Rightarrow> nat" where
  "retryInterval a = 2 ^ nSocketConnectFailures a * SOCKET_RETRY_INTERVAL"

definition startListeningFailed :: "thrown \<Rightarrow> alarm \<Rightarrow> effect list \<times> alarm" where
  "startListeningFailed err a =
     (if err = RateLimitError
      then ([StartListeningAfter (timerDelay (retryInterval a))],
            a\<lparr>nSocketConnectFailures := nSocketConnectFailures a + 1\<rparr>)
      else ([], a))"

text \<open>The first \<^verbatim>\<open>switch\<close> of the callback given to \<^verbatim>\<open>subscribeToEvents\<close>; the second
  one only updates HomeKit characteristics.\<close>

definition onEvent :: "EVENT_TYPES option \<Rightarrow> alarm \<Rightarrow> effect list \<times> alarm" where
  "onEvent ev a =
     (if ev = Some CONNECTED then ([], a\<lparr>nSocketConnectFailures := 0\<rparr>)
      else if ev = Some CONNECTION_LOST
      then ([StartListeningAfter (timerDelay SOCKET_RETRY_INTERVAL)], a)
      else ([], a))"

text \<open>A number of attempts in a row that each end in the \<^verbatim>\<open>catch\<close> with a
  RateLimitError.\<close>

fun rateLimitedAttempts :: "nat \<Rightarrow> alarm \<Rightarrow> effect list \<times> alarm" where
  "rateLimitedAttempts 0 a = ([], a)"
| "rateLimitedAttempts (Suc n) a =
     (let (fx, a1) = startListeningFailed RateLimitError a;
          (fx2, a2) = rateLimitedAttempts n a1
      in (fx @ fx2, a2))"

section \<open>Notions used in the statements\<close>

text \<open>An empty JSON object.\<close>

definition emptyBody :: payload where
  "emptyBody =
     \<lparr> subscription = None, state = [], exitDelay = None, statusCode = None,
       status = None, hasResponse = False, dataLength = 0 \<rparr>"

text \<open>The guard blocks at least until \<open>a\<close>, with a next interval of at least \<open>i\<close>.\<close>

definition blockedUntil :: "nat \<Rightarrow> nat \<Rightarrow> client \<Rightarrow> bool" where
  "blockedUntil a i s = (isBlocked s \<and> a \<le> nextAttempt s \<and> i \<le> nextBlockInterval s)"

text \<open>The event is a successful HTTP response.\<close>

definition isSuccess :: "event \<Rightarrow> bool" where
  "isSuccess e = (case e of HttpResponse h (Success d) \<Rightarrow> True | _ \<Rightarrow> False)"





text \<open>What every reachable state satisfies of its timers: their identifiers are below the
  next one to be given out, and a scheduled lockout timer is the one the client holds in
  \<^verbatim>\<open>sensorRefreshLockoutTimeout\<close>.\<close>

definition timersWellFormed :: "client \<Rightarrow> bool" where
  "timersWellFormed s =
     ((\<forall>t\<in>set (timers s). fst t < nextTimerId s)
      \<and> (\<forall>t\<in>set (lockoutTimers s). sensorRefreshLockoutTimeout s = Some (fst t)))"

section \<open>Frame lemmas\<close>

text \<open>Which segments leave the guard and the subscription cache alone.\<close>

lemmas ops = setTimer_def timerDelay_def clearTimer_def handleSensorRefreshLockout_def settle_def Let_def

lemma settle_frame:
  "isBlocked (settle now h r s) = isBlocked s"
  "nextAttempt (settle now h r s) = nextAttempt s"
  "nextBlockInterval (settle now h r s) = nextBlockInterval s"
  "lastSubscriptionRequests (settle now h r s) = lastSubscriptionRequests s"
  "netLog (settle now h r s) = netLog s"
  by (simp_all add: ops split: option.splits cont.splits sum.splits prod.splits)

lemma lockout_frame:
  "isBlocked (handleSensorRefreshLockout now s) = isBlocked s"
  "nextAttempt (handleSensorRefreshLockout now s) = nextAttempt s"
  "nextBlockInterval (handleSensorRefreshLockout now s) = nextBlockInterval s"
  "lastSubscriptionRequests (handleSensorRefreshLockout now s) = lastSubscriptionRequests s"
  by (simp_all add: ops split: option.splits prod.splits)

lemma request_frame:
  "isBlocked (snd (request now u c s)) = isBlocked s"
  "nextAttempt (snd (request now u c s)) = nextAttempt s"
  "nextBlockInterval (snd (request now u c s)) = nextBlockInterval s"
  "lastSubscriptionRequests (snd (request now u c s)) = lastSubscriptionRequests s"
  by (simp_all add: request_def Let_def settle_frame)

lemma request_blocked:
  assumes "isBlocked s" "now < nextAttempt s"
  shows "awaited (snd (request now u c s)) (fst (request now u c s)) = Some (Inl RateLimitError)"
    and "netLog (snd (request now u c s)) = netLog s"
  using assms
  by (simp_all add: request_def awaited_def ops split: cont.splits)


lemma cached_frame:
  "isBlocked (snd (cachedSubscription now k f s)) = isBlocked s"
  "nextAttempt (snd (cachedSubscription now k f s)) = nextAttempt s"
  "nextBlockInterval (snd (cachedSubscription now k f s)) = nextBlockInterval s"
  by (simp_all add: cachedSubscription_def Let_def request_frame split_beta split: option.splits)

lemma getSubscription_frame:
  "isBlocked (snd (getSubscription now sub f s)) = isBlocked s"
  "nextAttempt (snd (getSubscription now sub f s)) = nextAttempt s"
  "nextBlockInterval (snd (getSubscription now sub f s)) = nextBlockInterval s"
  by (simp_all add: getSubscription_def cached_frame split: option.splits)

lemma discovered_frame:
  "isBlocked (snd (getSubscriptionDiscovered now sids f s)) = isBlocked s"
  "nextAttempt (snd (getSubscriptionDiscovered now sids f s)) = nextAttempt s"
  "nextBlockInterval (snd (getSubscriptionDiscovered now sids f s)) = nextBlockInterval s"
  "isBlocked (subscriptionsReceived sids s) = isBlocked s"
  "nextAttempt (subscriptionsReceived sids s) = nextAttempt s"
  "nextBlockInterval (subscriptionsReceived sids s) = nextBlockInterval s"
  "lastSubscriptionRequests (subscriptionsReceived sids s) = lastSubscriptionRequests s"
  by (simp_all add: getSubscriptionDiscovered_def subscriptionsReceived_def cached_frame
      split: list.splits)

lemma postAlarmState_frame:
  "isBlocked (snd (postAlarmState now st s)) = isBlocked s"
  "nextAttempt (snd (postAlarmState now st s)) = nextAttempt s"
  "nextBlockInterval (snd (postAlarmState now st s)) = nextBlockInterval s"
  "lastSubscriptionRequests (snd (postAlarmState now st s)) = lastSubscriptionRequests s"
  by (simp_all add: postAlarmState_def request_frame split_beta)

lemma setAlarmState_frame:
  "isBlocked (snd (setAlarmState now st s)) = isBlocked s"
  "nextAttempt (snd (setAlarmState now st s)) = nextAttempt s"
  "nextBlockInterval (snd (setAlarmState now st s)) = nextBlockInterval s"
  "lastSubscriptionRequests (snd (setAlarmState now st s)) = lastSubscriptionRequests s"
  by (simp_all add: setAlarmState_def Let_def postAlarmState_frame)

lemma fireTimer_frame:
  "isBlocked (fireTimer now i s) = isBlocked s"
  "nextAttempt (fireTimer now i s) = nextAttempt s"
  "nextBlockInterval (fireTimer now i s) = nextBlockInterval s"
  by (simp_all add: fireTimer_def clearTimer_def split: option.splits prod.splits action.splits)

lemma socketCallback_frame:
  "isBlocked (snd (socketCallback now d s)) = isBlocked s"
  "nextAttempt (snd (socketCallback now d s)) = nextAttempt s"
  "nextBlockInterval (snd (socketCallback now d s)) = nextBlockInterval s"
  "lastSubscriptionRequests (snd (socketCallback now d s)) = lastSubscriptionRequests s"
  by (simp_all add: socketCallback_def byEventCid_def Let_def lockout_frame)

lemma sensor_frame:
  "isBlocked (subscribeToSensor now i c s) = isBlocked s"
  "nextAttempt (subscribeToSensor now i c s) = nextAttempt s"
  "nextBlockInterval (subscribeToSensor now i c s) = nextBlockInterval s"
  "lastSubscriptionRequests (subscribeToSensor now i c s) = lastSubscriptionRequests s"
  "isBlocked (unsubscribeFromSensor i s) = isBlocked s"
  "nextAttempt (unsubscribeFromSensor i s) = nextAttempt s"
  "nextBlockInterval (unsubscribeFromSensor i s) = nextBlockInterval s"
  "lastSubscriptionRequests (unsubscribeFromSensor i s) = lastSubscriptionRequests s"
  by (simp_all add: subscribeToSensor_def unsubscribeFromSensor_def ops split: option.splits prod.splits)

lemma blocked_settle: "blockedUntil a i (settle now h r s) = blockedUntil a i s"
  by (simp add: blockedUntil_def settle_frame)

lemma blocked_engage:
  "blockedUntil a i s \<Longrightarrow> a \<le> now + i \<Longrightarrow> blockedUntil a i (setRateLimitHandler now s)"
  by (auto simp: blockedUntil_def setRateLimitHandler_def)

lemma blocked_upd:
  "blockedUntil a i (s\<lparr>promises := x\<rparr>) = blockedUntil a i s"
  "blockedUntil a i (s\<lparr>promises := x, netLog := y\<rparr>) = blockedUntil a i s"
  by (simp_all add: blockedUntil_def)

lemma blocked_throwFrom:
  "blockedUntil a i s \<Longrightarrow> a \<le> now + i \<Longrightarrow> blockedUntil a i (throwFrom now h tr e s)"
  by (simp add: throwFrom_def refreshCatch_def blocked_settle blocked_engage)

lemma blocked_response:
  "blockedUntil a i s \<Longrightarrow> a \<le> now + i \<Longrightarrow> \<not> isSuccess (HttpResponse h r)
   \<Longrightarrow> blockedUntil a i (requestResponse now h r s)"
  by (auto simp: requestResponse_def isSuccess_def blocked_throwFrom blocked_engage blocked_upd
      split: option.splits pstatus.splits http_result.splits)

lemma blocked_refresh:
  "blockedUntil a i s \<Longrightarrow> a \<le> now + i \<Longrightarrow> blockedUntil a i (refreshResolved now h s)"
  "blockedUntil a i s \<Longrightarrow> a \<le> now + i \<Longrightarrow> blockedUntil a i (refreshRejected now h e s)"
  by (auto simp: refreshResolved_def refreshRejected_def blocked_throwFrom blocked_upd
      split: option.splits pstatus.splits)

lemma step_simps:
  "step s (now, Request u) = (Issued (fst (request now u Plain s)), snd (request now u Plain s))"
  "step s (now, GetSubscription sub f) = getSubscription now sub f s"
  "step s (now, SubscriptionsReceived sids) = (Ack, subscriptionsReceived sids s)"
  "step s (now, ResumeGetSubscription sids f) = getSubscriptionDiscovered now sids f s"
  "step s (now, SetAlarmState newState) = setAlarmState now newState s"
  "step s (now, ResumeSetAlarmState st) = postAlarmState now st s"
  "step s (now, HttpResponse h r) = (Ack, requestResponse now h r s)"
  "step s (now, RefreshResolved h) = (Ack, refreshResolved now h s)"
  "step s (now, RefreshRejected h err) = (Ack, refreshRejected now h err s)"
  "step s (now, TimerFired i) = (Ack, fireTimer now i s)"
  "step s (now, Push d) = (Ack, snd (socketCallback now d s))"
  "step s (now, SocketNotAuthorized) = (Ack, s\<lparr>isBlocked := True\<rparr>)"
  "step s (now, LocksObserved body) = (Ack, locksObserved body s)"
  "step s (now, SubscribeToSensor ident cb) = (Ack, subscribeToSensor now ident cb s)"
  "step s (now, UnsubscribeFromSensor ident) = (Ack, unsubscribeFromSensor ident s)"
  by (simp_all add: step_def split_beta)

lemma blocked_step:
  assumes "blockedUntil a i s" "a \<le> now + i" "\<not> isSuccess e"
  shows "blockedUntil a i (snd (step s (now, e)))"
proof (cases e)
  case (HttpResponse h r)
  then show ?thesis using assms by (simp add: step_simps blocked_response)
next
  case (RefreshResolved h)
  then show ?thesis using assms by (simp add: step_simps blocked_refresh)
next
  case (RefreshRejected h e)
  then show ?thesis using assms by (simp add: step_simps blocked_refresh)
qed (use assms in \<open>simp_all add: step_simps blockedUntil_def request_frame getSubscription_frame
      discovered_frame setAlarmState_frame postAlarmState_frame fireTimer_frame socketCallback_frame sensor_frame
      locksObserved_def\<close>)

lemma blocked_run:
  "blockedUntil a i s \<Longrightarrow> \<forall>te\<in>set tes. a \<le> fst te + i \<Longrightarrow> \<forall>te\<in>set tes. \<not> isSuccess (snd te)
   \<Longrightarrow> blockedUntil a i (snd (run s tes))"
proof (induction tes arbitrary: s)
  case Nil
  then show ?case by simp
next
  case (Cons te tes)
  have "blockedUntil a i (snd (step s (fst te, snd te)))"
    using Cons.prems by (intro blocked_step) simp_all
  then have "blockedUntil a i (snd (step s te))" by simp
  then have "blockedUntil a i (snd (run (snd (step s te)) tes))"
    using Cons.prems by (intro Cons.IH) simp_all
  then show ?case by (simp add: split_beta)
qed


section \<open>Rate-limit guard: the block after a 403\<close>

text \<open>C2, as amended. After an in-flight request has received a 403 at \<open>t0\<close>, the guard
  is blocked and \<open>nextAttempt\<close> is \<open>t0\<close> plus the interval of that moment. Whatever
  happens afterwards, as long as no request that was already in flight comes back
  successfully, every call of \<^verbatim>\<open>this.request\<close> made before that \<open>nextAttempt\<close>
  returns a promise already rejected with a RateLimitError and sends nothing. A
  successful response, whenever it arrives, unblocks the guard and puts the interval
  back to 60 seconds.\<close>

theorem block_holds_until_a_success:
  assumes "promises s0 h = Some p" and "pstate p = InFlight tr"
    and "s1 = requestResponse t0 h (Failure 403 body) s0"
    and "\<forall>te\<in>set tes. t0 \<le> fst te \<and> \<not> isSuccess (snd te)"
    and "s2 = snd (run s1 tes)"
    and "t < nextAttempt s1"
  shows "isBlocked s1 \<and> nextAttempt s1 = t0 + nextBlockInterval s0
     \<and> awaited (snd (request t u c s2)) (fst (request t u c s2)) = Some (Inl RateLimitError)
     \<and> netLog (snd (request t u c s2)) = netLog s2
     \<and> (\<forall>s' h' p' b now d. promises s' h' = Some p' \<and> pstate p' = InFlight b \<longrightarrow>
           \<not> isBlocked (requestResponse now h' (Success d) s')
           \<and> nextBlockInterval (requestResponse now h' (Success d) s') = rateLimitInitialInterval)"
proof -
  have s1: "isBlocked s1" "nextAttempt s1 = t0 + nextBlockInterval s0"
    "nextBlockInterval s0 \<le> nextBlockInterval s1"
    using assms(1,2,3)
    by (simp_all add: requestResponse_def throwFrom_def refreshCatch_def status_of_def
        settle_frame setRateLimitHandler_def)
  then have "blockedUntil (t0 + nextBlockInterval s0) (nextBlockInterval s0) s1"
    by (simp add: blockedUntil_def)
  then have "blockedUntil (t0 + nextBlockInterval s0) (nextBlockInterval s0) (snd (run s1 tes))"
    using assms(4) by (intro blocked_run) simp_all
  then have s2: "isBlocked s2" "t < nextAttempt s2"
    using assms(5,6) s1(2) by (simp_all add: blockedUntil_def)
  have reset: "\<not> isBlocked (requestResponse now h' (Success d) s')
      \<and> nextBlockInterval (requestResponse now h' (Success d) s') = rateLimitInitialInterval"
    if "promises s' h' = Some p'" "pstate p' = InFlight b" for s' h' p' b now d
    using that by (simp add: requestResponse_def settle_frame resetRateLimitHandler_def)
  show ?thesis
    using s1(1,2) request_blocked [OF s2] reset by blast
qed

text \<open>The unamended claim fails when a request was in flight at the time of the 403.
  Two requests are sent at time 0; the first comes back with a 403 at 100, which blocks
  the guard until 60100; the second comes back successfully at 200 and unblocks it; the
  request made at 300 is sent to the network and stays pending.\<close>

theorem request_before_nextAttempt_is_sent:
  "isBlocked (snd (run (initial 15000)
      [(0, Request (OtherUrl ''a'')), (0, Request (OtherUrl ''b'')),
       (100, HttpResponse 0 (Failure 403 emptyBody))]))
   \<and> 300 < nextAttempt (snd (run (initial 15000)
      [(0, Request (OtherUrl ''a'')), (0, Request (OtherUrl ''b'')),
       (100, HttpResponse 0 (Failure 403 emptyBody))]))
   \<and> netLog (snd (run (initial 15000)
      [(0, Request (OtherUrl ''a'')), (0, Request (OtherUrl ''b'')),
       (100, HttpResponse 0 (Failure 403 emptyBody)),
       (200, HttpResponse 1 (Success emptyBody)),
       (300, Request (OtherUrl ''c''))]))
     = [OtherUrl ''a'', OtherUrl ''b'', OtherUrl ''c'']
   \<and> awaited (snd (run (initial 15000)
      [(0, Request (OtherUrl ''a'')), (0, Request (OtherUrl ''b'')),
       (100, HttpResponse 0 (Failure 403 emptyBody)),
       (200, HttpResponse 1 (Success emptyBody)),
       (300, Request (OtherUrl ''c''))])) 2 = None"
  by (simp add: step_simps initial_def request_def requestResponse_def throwFrom_def settle_def
      setRateLimitHandler_def resetRateLimitHandler_def awaited_def rateLimitInitialInterval_def
      rateLimitMaxInterval_def Let_def)

text \<open>The theorem at a concrete run: a request sent at 0 receives a 403 at 100, another
  request is made at 200, and the request made at 300 sends nothing.\<close>

theorem block_holds_until_a_success_witness:
  "promises (snd (request 0 (OtherUrl ''a'') Plain (initial 15000))) 0
     = Some \<lparr>params = OtherUrl ''a'', continuation = Plain, pstate = InFlight False\<rparr>
   \<and> \<not> isSuccess (Request (OtherUrl ''b''))
   \<and> 300 < nextAttempt (requestResponse 100 0 (Failure 403 emptyBody)
              (snd (request 0 (OtherUrl ''a'') Plain (initial 15000))))
   \<and> netLog (snd (request 300 (OtherUrl ''c'') Plain
        (snd (run (requestResponse 100 0 (Failure 403 emptyBody)
              (snd (request 0 (OtherUrl ''a'') Plain (initial 15000))))
           [(200, Request (OtherUrl ''b''))]))))
      = netLog (snd (run (requestResponse 100 0 (Failure 403 emptyBody)
              (snd (request 0 (OtherUrl ''a'') Plain (initial 15000))))
           [(200, Request (OtherUrl ''b''))]))"
proof -
  have h1: "promises (snd (request 0 (OtherUrl ''a'') Plain (initial 15000))) 0
     = Some \<lparr>params = OtherUrl ''a'', continuation = Plain, pstate = InFlight False\<rparr>"
    by (simp add: request_def initial_def Let_def)
  have h2: "pstate \<lparr>params = OtherUrl ''a'', continuation = Plain, pstate = InFlight False\<rparr>
     = InFlight False" by simp
  have h4: "\<forall>te\<in>set [(200, Request (OtherUrl ''b''))]. (100::nat) \<le> fst te \<and> \<not> isSuccess (snd te)"
    by (simp add: isSuccess_def)
  have h6: "300 < nextAttempt (requestResponse 100 0 (Failure 403 emptyBody)
              (snd (request 0 (OtherUrl ''a'') Plain (initial 15000))))"
    by (simp add: requestResponse_def request_def initial_def Let_def throwFrom_def settle_frame
        setRateLimitHandler_def rateLimitInitialInterval_def)
  show ?thesis
    using block_holds_until_a_success [OF h1 h2 refl h4 refl h6, of "OtherUrl ''c''" Plain] h1 h4 h6
    by simp
qed

section \<open>Rate-limit guard: growth of the interval\<close>

lemma interval_from_floor:
  "length ts \<le> 6 \<Longrightarrow>
   nextBlockInterval (fold setRateLimitHandler ts (resetRateLimitHandler s))
     = rateLimitInitialInterval * 2 ^ length ts"
proof (induction ts rule: rev_induct)
  case Nil
  show ?case by (simp add: resetRateLimitHandler_def)
next
  case (snoc t ts)
  define x where "x = fold setRateLimitHandler ts (resetRateLimitHandler s)"
  from snoc.prems have len: "length ts \<le> 5" by simp
  then have ih: "nextBlockInterval x = rateLimitInitialInterval * 2 ^ length ts"
    using snoc.IH by (simp add: x_def)
  have "(2::nat) ^ length ts \<le> 2 ^ 5" using len by (intro power_increasing) simp_all
  then have below: "nextBlockInterval x < rateLimitMaxInterval"
    by (simp add: ih rateLimitInitialInterval_def rateLimitMaxInterval_def)
  have "nextBlockInterval (setRateLimitHandler t x) = 2 * nextBlockInterval x"
    using below by (simp add: setRateLimitHandler_def)
  moreover have "fold setRateLimitHandler (ts @ [t]) (resetRateLimitHandler s)
      = setRateLimitHandler t x" by (simp add: x_def)
  ultimately show ?case by (simp add: ih)
qed

text \<open>C3, as amended. Engagements in a row, at the times \<open>ts\<close>, starting from the
  60-second floor a reset leaves: each of the first six doubles \<open>nextBlockInterval\<close>
  (60000 times \<open>2^n\<close> after \<open>n\<close> of them, which is within the 2-hour ceiling); an
  engagement never shrinks the interval; and once the interval has reached the ceiling an
  engagement leaves it as it is.\<close>

theorem interval_doubles_up_to_the_ceiling:
  "(length ts \<le> 6 \<longrightarrow>
      nextBlockInterval (fold setRateLimitHandler ts (resetRateLimitHandler s))
        = rateLimitInitialInterval * 2 ^ length ts
      \<and> nextBlockInterval (fold setRateLimitHandler ts (resetRateLimitHandler s))
        \<le> rateLimitMaxInterval)
   \<and> nextBlockInterval s' \<le> nextBlockInterval (setRateLimitHandler now s')
   \<and> (rateLimitMaxInterval \<le> nextBlockInterval s' \<longrightarrow>
        nextBlockInterval (setRateLimitHandler now s') = nextBlockInterval s')"
proof -
  have "rateLimitInitialInterval * 2 ^ length ts \<le> rateLimitMaxInterval" if "length ts \<le> 6"
  proof -
    have "(2::nat) ^ length ts \<le> 2 ^ 6" using that by (intro power_increasing) simp_all
    then show ?thesis by (simp add: rateLimitInitialInterval_def rateLimitMaxInterval_def)
  qed
  then show ?thesis
    by (simp add: interval_from_floor setRateLimitHandler_def)
qed

theorem interval_doubles_up_to_the_ceiling_witness:
  "length [10, 20, 30 :: nat] \<le> 6
   \<and> nextBlockInterval (fold setRateLimitHandler [10, 20, 30] (resetRateLimitHandler (initial 15000)))
       = 480000
   \<and> rateLimitMaxInterval \<le> nextBlockInterval ((initial 15000)\<lparr>nextBlockInterval := 7680000\<rparr>)
   \<and> nextBlockInterval (setRateLimitHandler 5 ((initial 15000)\<lparr>nextBlockInterval := 7680000\<rparr>))
       = 7680000"
  using interval_doubles_up_to_the_ceiling
    [of "[10, 20, 30]" "initial 15000" "(initial 15000)\<lparr>nextBlockInterval := 7680000\<rparr>" 5]
  by (simp add: rateLimitInitialInterval_def rateLimitMaxInterval_def)

text \<open>The unamended claim fails at the seventh engagement in a row, which takes the
  interval from 3840000 to 7680000, above the ceiling of 7200000; the eighth does not
  double it.\<close>

theorem seventh_engagement_exceeds_ceiling:
  "\<not> nextBlockInterval (fold setRateLimitHandler [1, 2, 3, 4, 5, 6, 7] (initial 15000))
       \<le> rateLimitMaxInterval
   \<and> nextBlockInterval (fold setRateLimitHandler [1, 2, 3, 4, 5, 6, 7, 8] (initial 15000))
       \<noteq> 2 * nextBlockInterval (fold setRateLimitHandler [1, 2, 3, 4, 5, 6, 7] (initial 15000))"
  by (simp add: setRateLimitHandler_def initial_def rateLimitInitialInterval_def
      rateLimitMaxInterval_def)

section \<open>Reconnecting the realtime channel\<close>

lemma retry_delay_in_range: "n \<le> 21 \<Longrightarrow> timerDelay (2 ^ n * 1000) = 2 ^ n * 1000"
proof -
  assume "n \<le> 21"
  then have "(2::nat) ^ n \<le> 2 ^ 21" by (intro power_increasing) simp_all
  then have "(2::nat) ^ n * 1000 \<le> 2147483647" by simp
  then show ?thesis by (simp add: timerDelay_def)
qed

lemma rateLimitedAttempts_delays:
  "nSocketConnectFailures a + n \<le> 22 \<Longrightarrow>
   rateLimitedAttempts n a =
     (map (\<lambda>i. StartListeningAfter (2 ^ i * 1000))
        [nSocketConnectFailures a ..< nSocketConnectFailures a + n],
      a\<lparr>nSocketConnectFailures := nSocketConnectFailures a + n\<rparr>)"
proof (induction n arbitrary: a)
  case 0
  show ?case by simp
next
  case (Suc n)
  have first: "timerDelay (2 ^ nSocketConnectFailures a * 1000) = 2 ^ nSocketConnectFailures a * 1000"
    using Suc.prems by (intro retry_delay_in_range) simp
  have rest: "rateLimitedAttempts n (a\<lparr>nSocketConnectFailures := nSocketConnectFailures a + 1\<rparr>) =
     (map (\<lambda>i. StartListeningAfter (2 ^ i * 1000))
        [nSocketConnectFailures a + 1 ..< nSocketConnectFailures a + 1 + n],
      a\<lparr>nSocketConnectFailures := nSocketConnectFailures a + 1 + n\<rparr>)"
    using Suc.IH [of "a\<lparr>nSocketConnectFailures := nSocketConnectFailures a + 1\<rparr>"] Suc.prems
    by simp
  show ?case
    using rest first
    by (simp add: startListeningFailed_def retryInterval_def SOCKET_RETRY_INTERVAL_def
        upt_rec [of "nSocketConnectFailures a"])
qed

text \<open>C4, as amended. Attempts to subscribe that fail with a RateLimitError are retried
  after 1 second times 2 to the number of failures so far (1 s, 2 s, 4 s and so on, from
  a count of 0), as long as that number is at most 21; the count goes up by one each
  time, and the code applies no cap to the delay. A CONNECTED event puts the count back
  to 0; a CONNECTION_LOST event schedules the retry after 1 second, whatever the count.\<close>

theorem reconnect_delays:
  "(nSocketConnectFailures a + n \<le> 22 \<longrightarrow>
      rateLimitedAttempts n a =
        (map (\<lambda>i. StartListeningAfter (2 ^ i * 1000))
           [nSocketConnectFailures a ..< nSocketConnectFailures a + n],
         a\<lparr>nSocketConnectFailures := nSocketConnectFailures a + n\<rparr>))
   \<and> onEvent (Some CONNECTED) a = ([], a\<lparr>nSocketConnectFailures := 0\<rparr>)
   \<and> onEvent (Some CONNECTION_LOST) a = ([StartListeningAfter 1000], a)"
  by (simp add: rateLimitedAttempts_delays onEvent_def SOCKET_RETRY_INTERVAL_def timerDelay_def)

theorem reconnect_delays_witness:
  "rateLimitedAttempts 3 \<lparr>nRetries = 0, nSocketConnectFailures = 0, service = True\<rparr> =
     ([StartListeningAfter 1000, StartListeningAfter 2000, StartListeningAfter 4000],
      \<lparr>nRetries = 0, nSocketConnectFailures = 3, service = True\<rparr>)"
proof -
  have "nSocketConnectFailures \<lparr>nRetries = 0, nSocketConnectFailures = 0, service = True\<rparr> + 3 \<le> 22"
    by simp
  with reconnect_delays [of "\<lparr>nRetries = 0, nSocketConnectFailures = 0, service = True\<rparr>" 3]
  have "rateLimitedAttempts 3 \<lparr>nRetries = 0, nSocketConnectFailures = 0, service = True\<rparr> =
        (map (\<lambda>i. StartListeningAfter (2 ^ i * 1000))
           [nSocketConnectFailures \<lparr>nRetries = 0, nSocketConnectFailures = 0, service = True\<rparr>
              ..< nSocketConnectFailures \<lparr>nRetries = 0, nSocketConnectFailures = 0, service = True\<rparr> + 3],
         \<lparr>nRetries = 0, nSocketConnectFailures = 0, service = True\<rparr>
           \<lparr>nSocketConnectFailures :=
              nSocketConnectFailures \<lparr>nRetries = 0, nSocketConnectFailures = 0, service = True\<rparr> + 3\<rparr>)"
    by blast
  then show ?thesis by (simp add: upt_rec)
qed

text \<open>The unamended claim fails: the delay is not an exponential held at a cap. After 21
  failures the retry comes 2097152 seconds later; after 22 the number passed to the timer
  is above what the runtime accepts and the retry comes after 1 millisecond. No cap
  makes the delays the smaller of the exponential and the cap.\<close>

theorem reconnect_delay_is_not_capped:
  "startListeningFailed RateLimitError \<lparr>nRetries = 0, nSocketConnectFailures = 21, service = True\<rparr>
     = ([StartListeningAfter 2097152000],
        \<lparr>nRetries = 0, nSocketConnectFailures = 22, service = True\<rparr>)
   \<and> startListeningFailed RateLimitError \<lparr>nRetries = 0, nSocketConnectFailures = 22, service = True\<rparr>
     = ([StartListeningAfter 1],
        \<lparr>nRetries = 0, nSocketConnectFailures = 23, service = True\<rparr>)
   \<and> \<not> (\<exists>cap. \<forall>n.
          fst (startListeningFailed RateLimitError
                 \<lparr>nRetries = 0, nSocketConnectFailures = n, service = True\<rparr>)
            = [StartListeningAfter (min (2 ^ n * 1000) cap)])"
proof (intro conjI)
  show "startListeningFailed RateLimitError \<lparr>nRetries = 0, nSocketConnectFailures = 21, service = True\<rparr>
     = ([StartListeningAfter 2097152000],
        \<lparr>nRetries = 0, nSocketConnectFailures = 22, service = True\<rparr>)"
    by (simp add: startListeningFailed_def retryInterval_def SOCKET_RETRY_INTERVAL_def timerDelay_def)
  show at22: "startListeningFailed RateLimitError \<lparr>nRetries = 0, nSocketConnectFailures = 22, service = True\<rparr>
     = ([StartListeningAfter 1],
        \<lparr>nRetries = 0, nSocketConnectFailures = 23, service = True\<rparr>)"
    by (simp add: startListeningFailed_def retryInterval_def SOCKET_RETRY_INTERVAL_def timerDelay_def)
  show "\<not> (\<exists>cap. \<forall>n.
          fst (startListeningFailed RateLimitError
                 \<lparr>nRetries = 0, nSocketConnectFailures = n, service = True\<rparr>)
            = [StartListeningAfter (min (2 ^ n * 1000) cap)])"
  proof
    assume "\<exists>cap. \<forall>n.
          fst (startListeningFailed RateLimitError
                 \<lparr>nRetries = 0, nSocketConnectFailures = n, service = True\<rparr>)
            = [StartListeningAfter (min (2 ^ n * 1000) cap)]"
    then obtain cap where c: "\<And>n.
          fst (startListeningFailed RateLimitError
                 \<lparr>nRetries = 0, nSocketConnectFailures = n, service = True\<rparr>)
            = [StartListeningAfter (min (2 ^ n * 1000) cap)]" by blast
    from c [of 22] at22 have "min (2 ^ 22 * 1000) cap = (1::nat)" by simp
    then have "cap = 1" by (simp add: min_def split: if_splits)
    moreover from c [of 0] have "min 1000 cap = (1000::nat)"
      by (simp add: startListeningFailed_def retryInterval_def SOCKET_RETRY_INTERVAL_def
          timerDelay_def)
    ultimately show False by simp
  qed
qed

section \<open>The polling timer and the subscriber registry\<close>

text \<open>C5, on the code. The first subscriber starts the polling timer and removing the last
  one stops it, but \<^verbatim>\<open>unsubscribeFromSensor\<close> leaves the cleared handle in
  \<^verbatim>\<open>sensorRefreshInterval\<close>, so the next \<^verbatim>\<open>subscribeToSensor\<close> does not start a timer:
  after subscribing A, unsubscribing A and subscribing B, the registry holds B and no
  polling timer is scheduled.\<close>

theorem resubscribing_starts_no_timer:
  "pollingTimers (subscribeToSensor 0 ''A'' 1 (initial 15000)) = [(0, 15000, SensorRefresh 15000)]
   \<and> pollingTimers (unsubscribeFromSensor ''A'' (subscribeToSensor 0 ''A'' 1 (initial 15000))) = []
   \<and> sensorSubscriptions (subscribeToSensor 2000 ''B'' 2
        (unsubscribeFromSensor ''A'' (subscribeToSensor 0 ''A'' 1 (initial 15000))))
       = [(''B'', 2)]
   \<and> pollingTimers (subscribeToSensor 2000 ''B'' 2
        (unsubscribeFromSensor ''A'' (subscribeToSensor 0 ''A'' 1 (initial 15000))))
       = []"
  by (simp add: subscribeToSensor_def unsubscribeFromSensor_def initial_def setTimer_def timerDelay_def
      clearTimer_def pollingTimers_def isPolling_def)

section \<open>Inbound pushes\<close>

text \<open>C6. For a push of this account's subscription whose eventType is neither alarm nor
  alarmCancel: with event code 1407 the callback is invoked once, with ALARM_DISARM and
  the push, and the sensor-refresh lockout is armed (\<^verbatim>\<open>handleSensorRefreshLockout\<close> runs,
  which with lock hardware present schedules the lockout timer 15 seconds ahead); with
  event code 1602 the callback is not invoked and nothing changes.\<close>

theorem push_1407_and_1602:
  assumes "sid d = subId s" and "eventType d \<noteq> ''alarm''" and "eventType d \<noteq> ''alarmCancel''"
  shows "(eventCid d = 1407 \<longrightarrow>
            socketCallback now d s
              = ([(Some ALARM_DISARM, d)], handleSensorRefreshLockout now s)
            \<and> (sensorRefreshLockoutEnabled s \<longrightarrow>
                 sensorRefreshLockoutTimeout (snd (socketCallback now d s)) = Some (nextTimerId s)
                 \<and> lockoutTimers (snd (socketCallback now d s))
                     = filter (\<lambda>t. Some (fst t) \<noteq> sensorRefreshLockoutTimeout s) (lockoutTimers s)
                       @ [(nextTimerId s, now + 15000, LockoutExpire)]))
       \<and> (eventCid d = 1602 \<longrightarrow> socketCallback now d s = ([], s))"
  using assms
  by (auto simp: socketCallback_def byEventCid_def handleSensorRefreshLockout_def setTimer_def timerDelay_def
      clearTimer_def lockoutTimers_def sensorRefreshLockoutDuration_def Let_def
      split: option.splits intro: filter_cong)

theorem push_1407_and_1602_witness:
  "sid \<lparr>sid = Some 7, eventType = ''activity'', eventCid = 1407\<rparr>
     = subId ((initial 15000)\<lparr>subId := Some 7, sensorRefreshLockoutEnabled := True\<rparr>)
   \<and> eventType \<lparr>sid = Some 7, eventType = ''activity'', eventCid = 1407\<rparr> \<noteq> ''alarm''
   \<and> eventType \<lparr>sid = Some 7, eventType = ''activity'', eventCid = 1407\<rparr> \<noteq> ''alarmCancel''
   \<and> fst (socketCallback 50 \<lparr>sid = Some 7, eventType = ''activity'', eventCid = 1407\<rparr>
        ((initial 15000)\<lparr>subId := Some 7, sensorRefreshLockoutEnabled := True\<rparr>))
       = [(Some ALARM_DISARM, \<lparr>sid = Some 7, eventType = ''activity'', eventCid = 1407\<rparr>)]
   \<and> lockoutTimers (snd (socketCallback 50
        \<lparr>sid = Some 7, eventType = ''activity'', eventCid = 1407\<rparr>
        ((initial 15000)\<lparr>subId := Some 7, sensorRefreshLockoutEnabled := True\<rparr>)))
       = [(0, 15050, LockoutExpire)]"
proof -
  let ?d = "\<lparr>sid = Some 7, eventType = ''activity'', eventCid = 1407\<rparr>"
  let ?s = "(initial 15000)\<lparr>subId := Some 7, sensorRefreshLockoutEnabled := True\<rparr>"
  have h1: "sid ?d = subId ?s" by simp
  have h2: "eventType ?d \<noteq> ''alarm''" by simp
  have h3: "eventType ?d \<noteq> ''alarmCancel''" by simp
  have c: "eventCid ?d = 1407" and e: "sensorRefreshLockoutEnabled ?s" by simp_all
  have l: "lockoutTimers ?s = []" "nextTimerId ?s = 0"
    by (simp_all add: lockoutTimers_def initial_def)
  from push_1407_and_1602 [OF h1 h2 h3, of 50] c e
  have "socketCallback 50 ?d ?s = ([(Some ALARM_DISARM, ?d)], handleSensorRefreshLockout 50 ?s)"
    and "lockoutTimers (snd (socketCallback 50 ?d ?s))
          = filter (\<lambda>t. Some (fst t) \<noteq> sensorRefreshLockoutTimeout ?s) (lockoutTimers ?s)
            @ [(nextTimerId ?s, 50 + 15000, LockoutExpire)]"
    by blast+
  then have "fst (socketCallback 50 ?d ?s) = [(Some ALARM_DISARM, ?d)]"
    and "lockoutTimers (snd (socketCallback 50 ?d ?s)) = [(0, 15050, LockoutExpire)]"
    by (simp_all only: l fst_conv filter.simps append_Nil) simp_all
  then show ?thesis using h1 h2 h3 by blast
qed

section \<open>The sensor-refresh lockout\<close>

lemma find_append_None:
  "find P xs = None \<Longrightarrow> find P (xs @ ys) = find P ys"
  by (induction xs) (auto split: if_splits)

lemma lockout_arm_timers:
  assumes "sensorRefreshLockoutEnabled s"
    and "\<forall>t\<in>set (lockoutTimers s). sensorRefreshLockoutTimeout s = Some (fst t)"
  shows "lockoutTimers (handleSensorRefreshLockout now s)
           = [(nextTimerId s, now + 15000, LockoutExpire)]"
    and "sensorRefreshLockoutTimeout (handleSensorRefreshLockout now s) = Some (nextTimerId s)"
    and "nextTimerId (handleSensorRefreshLockout now s) = nextTimerId s + 1"
    and "sensorRefreshLockoutEnabled (handleSensorRefreshLockout now s)"
    and "timers (handleSensorRefreshLockout now s)
           = filter (\<lambda>t. Some (fst t) \<noteq> sensorRefreshLockoutTimeout s) (timers s)
             @ [(nextTimerId s, now + 15000, LockoutExpire)]"
proof -
  have "filter (\<lambda>t. snd (snd t) = LockoutExpire)
          (filter (\<lambda>t. Some (fst t) \<noteq> sensorRefreshLockoutTimeout s) (timers s)) = []"
    using assms(2) by (fastforce simp: lockoutTimers_def filter_empty_conv)
  moreover have t: "timers (handleSensorRefreshLockout now s)
           = filter (\<lambda>t. Some (fst t) \<noteq> sensorRefreshLockoutTimeout s) (timers s)
             @ [(nextTimerId s, now + 15000, LockoutExpire)]"
    using assms(1)
    by (auto simp: handleSensorRefreshLockout_def clearTimer_def setTimer_def timerDelay_def Let_def
        sensorRefreshLockoutDuration_def split: option.splits intro: filter_cong)
  ultimately show "lockoutTimers (handleSensorRefreshLockout now s)
           = [(nextTimerId s, now + 15000, LockoutExpire)]"
    by (simp add: lockoutTimers_def)
  show "timers (handleSensorRefreshLockout now s)
           = filter (\<lambda>t. Some (fst t) \<noteq> sensorRefreshLockoutTimeout s) (timers s)
             @ [(nextTimerId s, now + 15000, LockoutExpire)]" by (rule t)
  show "sensorRefreshLockoutTimeout (handleSensorRefreshLockout now s) = Some (nextTimerId s)"
    "nextTimerId (handleSensorRefreshLockout now s) = nextTimerId s + 1"
    "sensorRefreshLockoutEnabled (handleSensorRefreshLockout now s)"
    using assms(1)
    by (simp_all add: handleSensorRefreshLockout_def clearTimer_def setTimer_def timerDelay_def Let_def
        split: option.splits)
qed

lemma lockout_debounce_core:
  assumes fresh: "\<forall>t\<in>set (timers s). fst t < nextTimerId s"
    and owned: "\<forall>t\<in>set (lockoutTimers s). sensorRefreshLockoutTimeout s = Some (fst t)"
    and s2: "s2 = handleSensorRefreshLockout t2 (handleSensorRefreshLockout t1 s)"
  shows "(\<not> sensorRefreshLockoutEnabled s \<longrightarrow> handleSensorRefreshLockout t1 s = s)
     \<and> (sensorRefreshLockoutEnabled s \<longrightarrow>
          lockoutTimers (handleSensorRefreshLockout t1 s)
            = [(nextTimerId s, t1 + 15000, LockoutExpire)]
          \<and> lockoutTimers s2 = [(nextTimerId s + 1, t2 + 15000, LockoutExpire)]
          \<and> sensorRefreshLockoutTimeout s2 = Some (nextTimerId s + 1)
          \<and> fireTimer now (nextTimerId s) s2 = s2
          \<and> (now < t2 + 15000 \<longrightarrow> fireTimer now (nextTimerId s + 1) s2 = s2)
          \<and> (t2 + 15000 \<le> now \<longrightarrow>
               lockoutTimers (fireTimer now (nextTimerId s + 1) s2) = []
               \<and> sensorRefreshLockoutTimeout (fireTimer now (nextTimerId s + 1) s2) = None))"
proof (intro conjI impI)
  show "handleSensorRefreshLockout t1 s = s" if "\<not> sensorRefreshLockoutEnabled s"
    using that by (simp add: handleSensorRefreshLockout_def)
next
  assume en: "sensorRefreshLockoutEnabled s"
  let ?n = "nextTimerId s"
  let ?s1 = "handleSensorRefreshLockout t1 s"
  note a1 = lockout_arm_timers [OF en owned, of t1]
  show "lockoutTimers ?s1 = [(?n, t1 + 15000, LockoutExpire)]" by (rule a1(1))
  have owned1: "\<forall>t\<in>set (lockoutTimers ?s1). sensorRefreshLockoutTimeout ?s1 = Some (fst t)"
    by (simp add: a1(1,2))
  note a2 = lockout_arm_timers [OF a1(4) owned1, of t2, folded s2, unfolded a1(2,3)]
  show l2: "lockoutTimers s2 = [(?n + 1, t2 + 15000, LockoutExpire)]" by (rule a2(1))
  show r2: "sensorRefreshLockoutTimeout s2 = Some (?n + 1)" by (rule a2(2))
  have t2: "timers s2 = filter (\<lambda>t. fst t \<noteq> ?n)
        (filter (\<lambda>t. Some (fst t) \<noteq> sensorRefreshLockoutTimeout s) (timers s))
        @ [(?n + 1, t2 + 15000, LockoutExpire)]"
    using a2(5) by (simp add: a1(5))
  have none_n: "find (\<lambda>t. fst t = ?n) (timers s2) = None"
    by (auto simp: t2 find_None_iff)
  show "fireTimer now ?n s2 = s2" by (simp add: fireTimer_def none_n)
  have "find (\<lambda>t. fst t = ?n + 1) (filter (\<lambda>t. fst t \<noteq> ?n)
        (filter (\<lambda>t. Some (fst t) \<noteq> sensorRefreshLockoutTimeout s) (timers s))) = None"
    using fresh by (auto simp: find_None_iff)
  then have found: "find (\<lambda>t. fst t = ?n + 1) (timers s2) = Some (?n + 1, t2 + 15000, LockoutExpire)"
    by (simp add: t2 find_append_None)
  show "fireTimer now (?n + 1) s2 = s2" if "now < t2 + 15000"
    using that found by (simp add: fireTimer_def)
  show "lockoutTimers (fireTimer now (?n + 1) s2) = []" if "t2 + 15000 \<le> now"
  proof -
    have "timers (fireTimer now (?n + 1) s2) = filter (\<lambda>t. fst t \<noteq> ?n + 1) (timers s2)"
      using that found by (simp add: fireTimer_def clearTimer_def)
    then have "lockoutTimers (fireTimer now (?n + 1) s2)
        = filter (\<lambda>t. fst t \<noteq> ?n + 1) (lockoutTimers s2)"
      by (simp add: lockoutTimers_def conj_commute)
    then show ?thesis by (simp add: l2)
  qed
  show "sensorRefreshLockoutTimeout (fireTimer now (?n + 1) s2) = None" if "t2 + 15000 \<le> now"
    using that found by (simp add: fireTimer_def clearTimer_def)
qed

lemma wf_upd:
  "timersWellFormed (s\<lparr>promises := x1\<rparr>) = timersWellFormed s"
  "timersWellFormed (s\<lparr>nextHandle := x2\<rparr>) = timersWellFormed s"
  "timersWellFormed (s\<lparr>netLog := x3\<rparr>) = timersWellFormed s"
  "timersWellFormed (s\<lparr>lastSubscriptionRequests := x4\<rparr>) = timersWellFormed s"
  "timersWellFormed (s\<lparr>sensorSubscriptions := x5\<rparr>) = timersWellFormed s"
  "timersWellFormed (s\<lparr>sensorRefreshInterval := x6\<rparr>) = timersWellFormed s"
  "timersWellFormed (s\<lparr>sensorRefreshLockoutEnabled := x7\<rparr>) = timersWellFormed s"
  "timersWellFormed (s\<lparr>isBlocked := x8\<rparr>) = timersWellFormed s"
  "timersWellFormed (s\<lparr>nextAttempt := x9\<rparr>) = timersWellFormed s"
  "timersWellFormed (s\<lparr>nextBlockInterval := x10\<rparr>) = timersWellFormed s"
  "timersWellFormed (s\<lparr>subId := x11\<rparr>) = timersWellFormed s"
  by (simp_all add: timersWellFormed_def lockoutTimers_def)

lemma wf_setTimer:
  "timersWellFormed s \<Longrightarrow> a \<noteq> LockoutExpire \<Longrightarrow> timersWellFormed (snd (setTimer now d a s))"
  by (auto simp: timersWellFormed_def lockoutTimers_def setTimer_def timerDelay_def less_Suc_eq)

lemma wf_clearTimer:
  "timersWellFormed s \<Longrightarrow> timersWellFormed (clearTimer h s)"
  by (auto simp: timersWellFormed_def lockoutTimers_def clearTimer_def split: option.splits)

lemma wf_lockout:
  assumes "timersWellFormed s"
  shows "timersWellFormed (handleSensorRefreshLockout now s)"
proof (cases "sensorRefreshLockoutEnabled s")
  case False
  then show ?thesis using assms by (simp add: handleSensorRefreshLockout_def)
next
  case True
  have owned: "\<forall>t\<in>set (lockoutTimers s). sensorRefreshLockoutTimeout s = Some (fst t)"
    using assms by (simp add: timersWellFormed_def)
  note a = lockout_arm_timers [OF True owned, of now]
  show ?thesis
    using assms unfolding timersWellFormed_def a(1,2,3,5)
    by (auto simp: less_Suc_eq)
qed

lemma wf_settle: "timersWellFormed s \<Longrightarrow> timersWellFormed (settle now h r s)"
  by (simp add: settle_def Let_def wf_upd wf_setTimer wf_lockout
      split: option.splits cont.splits sum.splits)

lemma wf_request: "timersWellFormed s \<Longrightarrow> timersWellFormed (snd (request now u c s))"
  by (simp add: request_def Let_def wf_settle wf_upd)

lemma wf_guard:
  "timersWellFormed (setRateLimitHandler now s) = timersWellFormed s"
  "timersWellFormed (resetRateLimitHandler s) = timersWellFormed s"
  by (simp_all add: wf_upd setRateLimitHandler_def resetRateLimitHandler_def)

lemma wf_throwFrom: "timersWellFormed s \<Longrightarrow> timersWellFormed (throwFrom now h tr e s)"
  by (simp add: throwFrom_def refreshCatch_def wf_settle wf_guard)

lemma wf_response: "timersWellFormed s \<Longrightarrow> timersWellFormed (requestResponse now h r s)"
  by (simp add: requestResponse_def wf_settle wf_throwFrom wf_guard wf_upd
      split: option.splits pstatus.splits http_result.splits)

lemma wf_refresh:
  assumes "timersWellFormed s"
  shows "timersWellFormed (refreshResolved now h s)"
    and "timersWellFormed (refreshRejected now h e s)"
  using assms
  by (simp_all add: refreshResolved_def refreshRejected_def wf_throwFrom wf_upd
      split: option.splits pstatus.splits)

lemma wf_getSubscription:
  assumes "timersWellFormed s"
  shows "timersWellFormed (snd (getSubscription now sub f s))"
  using assms
  by (simp add: getSubscription_def cachedSubscription_def Let_def split_beta wf_upd wf_request
      split: option.splits)

lemma wf_discovered:
  assumes "timersWellFormed s"
  shows "timersWellFormed (snd (getSubscriptionDiscovered now sids f s))"
    and "timersWellFormed (subscriptionsReceived sids s)"
  using assms
  by (simp_all add: getSubscriptionDiscovered_def subscriptionsReceived_def
      cachedSubscription_def Let_def split_beta wf_upd wf_request
      split: option.splits list.splits)

lemma wf_setAlarmState:
  assumes "timersWellFormed s"
  shows "timersWellFormed (snd (setAlarmState now newState s))"
    and "timersWellFormed (snd (postAlarmState now st s))"
  using assms by (simp_all add: setAlarmState_def postAlarmState_def Let_def split_beta wf_request)

lemma wf_socketCallback:
  "timersWellFormed s \<Longrightarrow> timersWellFormed (snd (socketCallback now d s))"
  by (simp add: socketCallback_def byEventCid_def Let_def wf_lockout)

lemma wf_sensor:
  assumes "timersWellFormed s"
  shows "timersWellFormed (subscribeToSensor now i c s)"
    and "timersWellFormed (unsubscribeFromSensor i s)"
  using assms
  by (simp_all add: subscribeToSensor_def unsubscribeFromSensor_def Let_def split_beta wf_upd
      wf_setTimer wf_clearTimer)

lemma find_Some_mem: "find P xs = Some x \<Longrightarrow> P x \<and> x \<in> set xs"
  by (induction xs) (auto split: if_splits)

lemma wf_fireTimer:
  assumes "timersWellFormed s"
  shows "timersWellFormed (fireTimer now i s)"
proof (cases "find (\<lambda>t. fst t = i) (timers s)")
  case None
  then show ?thesis using assms by (simp add: fireTimer_def)
next
  case (Some t)
  obtain j due a where t: "t = (j, due, a)" by (cases t)
  have mem: "(j, due, a) \<in> set (timers s)" and j: "j = i"
    using find_Some_mem [OF Some] t by auto
  show ?thesis
  proof (cases "now < due")
    case True
    then show ?thesis using assms Some t by (simp add: fireTimer_def)
  next
    case False
    show ?thesis
    proof (cases a)
      case (EvictSubscription k)
      have "timersWellFormed ((clearTimer (Some i) s)\<lparr>lastSubscriptionRequests := x\<rparr>)" for x
        using wf_clearTimer [OF assms, of "Some i"] by (simp add: wf_upd)
      then show ?thesis using Some t False EvictSubscription by (simp add: fireTimer_def)
    next
      case LockoutExpire
      then have "(i, due, LockoutExpire) \<in> set (lockoutTimers s)"
        using mem j by (simp add: lockoutTimers_def)
      then have "sensorRefreshLockoutTimeout s = Some i"
        using assms by (auto simp: timersWellFormed_def)
      then have "timersWellFormed ((clearTimer (Some i) s)\<lparr>sensorRefreshLockoutTimeout := None\<rparr>)"
        using assms by (auto simp: timersWellFormed_def lockoutTimers_def clearTimer_def)
      then show ?thesis using Some t False LockoutExpire by (simp add: fireTimer_def)
    next
      case (SensorRefresh p)
      have "timersWellFormed (s\<lparr>timers := map (\<lambda>t. if fst t = i then (i, due + p, SensorRefresh p) else t)
                                  (timers s)\<rparr>)"
        using assms by (auto simp: timersWellFormed_def lockoutTimers_def split: if_splits)
      then show ?thesis using Some t False SensorRefresh by (simp add: fireTimer_def)
    qed
  qed
qed

lemma wf_step: "timersWellFormed s \<Longrightarrow> timersWellFormed (snd (step s (now, e)))"
  by (cases e)
    (simp_all add: step_simps wf_request wf_getSubscription wf_discovered wf_setAlarmState
      wf_response
      wf_refresh wf_fireTimer wf_socketCallback wf_sensor wf_upd locksObserved_def)

lemma wf_run: "timersWellFormed s \<Longrightarrow> timersWellFormed (snd (run s tes))"
proof (induction tes arbitrary: s)
  case Nil
  then show ?case by simp
next
  case (Cons te tes)
  have "timersWellFormed (snd (step s (fst te, snd te)))" using Cons.prems by (rule wf_step)
  then have "timersWellFormed (snd (run (snd (step s te)) tes))" by (intro Cons.IH) simp
  then show ?case by (simp add: split_beta)
qed

lemma wf_initial: "timersWellFormed (initial r)"
  by (simp add: timersWellFormed_def initial_def lockoutTimers_def)

text \<open>C7. In every state the client reaches from its construction: arming the lockout
  without lock hardware observed changes nothing. With lock hardware observed, arming at
  \<open>t1\<close> leaves exactly one lockout timer, due 15 seconds later; arming again at \<open>t2\<close>
  cancels it and leaves exactly one lockout timer, due 15 seconds after \<open>t2\<close>: the
  cancelled timer never fires, the new one does nothing before it is due, and when it
  fires the lockout is over and no lockout timer remains.\<close>

theorem lockout_is_debounced:
  assumes "s = snd (run (initial refreshTime) tes)"
    and "s2 = handleSensorRefreshLockout t2 (handleSensorRefreshLockout t1 s)"
  shows "(\<not> sensorRefreshLockoutEnabled s \<longrightarrow> handleSensorRefreshLockout t1 s = s)
     \<and> (sensorRefreshLockoutEnabled s \<longrightarrow>
          lockoutTimers (handleSensorRefreshLockout t1 s)
            = [(nextTimerId s, t1 + 15000, LockoutExpire)]
          \<and> lockoutTimers s2 = [(nextTimerId s + 1, t2 + 15000, LockoutExpire)]
          \<and> sensorRefreshLockoutTimeout s2 = Some (nextTimerId s + 1)
          \<and> fireTimer now (nextTimerId s) s2 = s2
          \<and> (now < t2 + 15000 \<longrightarrow> fireTimer now (nextTimerId s + 1) s2 = s2)
          \<and> (t2 + 15000 \<le> now \<longrightarrow>
               lockoutTimers (fireTimer now (nextTimerId s + 1) s2) = []
               \<and> sensorRefreshLockoutTimeout (fireTimer now (nextTimerId s + 1) s2) = None))"
proof -
  have "timersWellFormed s"
    unfolding assms(1) by (intro wf_run wf_initial)
  then have "\<forall>t\<in>set (timers s). fst t < nextTimerId s"
    and "\<forall>t\<in>set (lockoutTimers s). sensorRefreshLockoutTimeout s = Some (fst t)"
    by (simp_all add: timersWellFormed_def)
  then show ?thesis using assms(2) by (rule lockout_debounce_core)
qed

theorem lockout_is_debounced_witness:
  "handleSensorRefreshLockout 1000 (initial 15000) = initial 15000
   \<and> lockoutTimers (handleSensorRefreshLockout 5000 (handleSensorRefreshLockout 1000
        (locksObserved (emptyBody\<lparr>dataLength := 1\<rparr>) (initial 15000))))
       = [(1, 20000, LockoutExpire)]
   \<and> lockoutTimers (fireTimer 20000 1
        (handleSensorRefreshLockout 5000 (handleSensorRefreshLockout 1000
          (locksObserved (emptyBody\<lparr>dataLength := 1\<rparr>) (initial 15000)))))
       = []"
proof -
  let ?s = "locksObserved (emptyBody\<lparr>dataLength := 1\<rparr>) (initial 15000)"
  have r0: "initial 15000 = snd (run (initial 15000) [])" by simp
  have r1: "?s = snd (run (initial 15000) [(0, LocksObserved (emptyBody\<lparr>dataLength := 1\<rparr>))])"
    by (simp add: step_simps)
  have d: "\<not> sensorRefreshLockoutEnabled (initial 15000)" "sensorRefreshLockoutEnabled ?s"
    "nextTimerId ?s = 0"
    by (simp_all add: initial_def locksObserved_def)
  from lockout_is_debounced [OF r0 refl, where ?t1.0 = 1000] d(1)
  have a: "handleSensorRefreshLockout 1000 (initial 15000) = initial 15000" by blast
  from lockout_is_debounced [OF r1 refl, where ?t1.0 = 1000 and ?t2.0 = 5000 and now = 20000] d(2)
  have "lockoutTimers (handleSensorRefreshLockout 5000 (handleSensorRefreshLockout 1000 ?s))
      = [(nextTimerId ?s + 1, 5000 + 15000, LockoutExpire)]"
    and "lockoutTimers (fireTimer 20000 (nextTimerId ?s + 1)
           (handleSensorRefreshLockout 5000 (handleSensorRefreshLockout 1000 ?s))) = []"
    by simp_all
  note b = this [unfolded d(3)]
  show ?thesis using a b by simp
qed

section \<open>Validation of the target state\<close>

text \<open>C9. When the lower-cased \<open>newState\<close> is not one of off, home, away, setAlarmState
  throws the invalid-target-state error and leaves the client as it was: no request, no
  promise, no timer. When it is one of them, the validation passes: the method goes on to
  the request, after waiting for the subscription id when it is not known yet.\<close>

theorem invalid_target_state_rejected:
  "(toLowerCase newState \<notin> set validAlarmStates \<longrightarrow>
      setAlarmState now newState s = (Throws InvalidTargetState, s))
   \<and> (toLowerCase newState \<in> set validAlarmStates \<longrightarrow>
        setAlarmState now newState s
          = (if truthy (subId s) then postAlarmState now (toLowerCase newState) s
             else (AwaitSubscription (toLowerCase newState), s))
        \<and> fst (setAlarmState now newState s) \<noteq> Throws InvalidTargetState)"
  by (simp add: setAlarmState_def postAlarmState_def Let_def split_beta)

theorem invalid_target_state_rejected_witness:
  "setAlarmState 0 ''bogus'' (initial 15000) = (Throws InvalidTargetState, initial 15000)
   \<and> setAlarmState 0 ''HoMe'' (initial 15000) = (AwaitSubscription ''home'', initial 15000)"
proof -
  have a: "toLowerCase ''bogus'' \<notin> set validAlarmStates" by code_simp
  have b: "toLowerCase ''HoMe'' \<in> set validAlarmStates" by code_simp
  have c: "toLowerCase ''HoMe'' = ''home''" by code_simp
  have d: "\<not> truthy (subId (initial 15000))" by (simp add: initial_def truthy_def)
  from invalid_target_state_rejected [of "''bogus''" 0 "initial 15000"] a
  have "setAlarmState 0 ''bogus'' (initial 15000) = (Throws InvalidTargetState, initial 15000)"
    by blast
  moreover from invalid_target_state_rejected [of "''HoMe''" 0 "initial 15000"] b
  have "setAlarmState 0 ''HoMe'' (initial 15000)
          = (if truthy (subId (initial 15000)) then postAlarmState 0 (toLowerCase ''HoMe'') (initial 15000)
             else (AwaitSubscription (toLowerCase ''HoMe''), initial 15000))"
    by blast
  ultimately show ?thesis by (simp only: c d if_False simp_thms)
qed

section \<open>A state change accepted by the service\<close>

text \<open>C10. When the request of a setAlarmState call is in flight and its response is a
  success, the caller receives the response body and \<^verbatim>\<open>handleSensorRefreshLockout\<close>
  runs on the way: with lock hardware observed, the lockout timer is replaced by one due
  15 seconds later; without, the timers stay as they are.\<close>

theorem accepted_state_change_arms_lockout:
  assumes "promises s h = Some p" and "continuation p = AlarmState" and "pstate p = InFlight tr"
    and "s' = requestResponse now h (Success d) s"
  shows "s' = handleSensorRefreshLockout now
               ((resetRateLimitHandler s)\<lparr>promises := (promises s)(h \<mapsto> p\<lparr>pstate := Settled (Inr d)\<rparr>)\<rparr>)
     \<and> awaited s' h = Some (Inr d)
     \<and> (sensorRefreshLockoutEnabled s \<longrightarrow>
          sensorRefreshLockoutTimeout s' = Some (nextTimerId s)
          \<and> timers s' = filter (\<lambda>t. Some (fst t) \<noteq> sensorRefreshLockoutTimeout s) (timers s)
                          @ [(nextTimerId s, now + 15000, LockoutExpire)])
     \<and> (\<not> sensorRefreshLockoutEnabled s \<longrightarrow>
          sensorRefreshLockoutTimeout s' = sensorRefreshLockoutTimeout s \<and> timers s' = timers s)"
  using assms
  by (auto simp: requestResponse_def settle_def resetRateLimitHandler_def awaited_def
      handleSensorRefreshLockout_def clearTimer_def setTimer_def timerDelay_def Let_def
      sensorRefreshLockoutDuration_def split: option.splits intro: filter_cong)

lemma setAlarmState_promise:
  assumes "toLowerCase newState \<in> set validAlarmStates" and "truthy (subId s)"
    and "\<not> (isBlocked s \<and> now < nextAttempt s)"
  shows "fst (setAlarmState now newState s) = Issued (nextHandle s)"
    and "promises (snd (setAlarmState now newState s)) (nextHandle s)
      = Some \<lparr>params = PostAlarmState (subId s) (toLowerCase newState),
               continuation = AlarmState, pstate = InFlight False\<rparr>"
  using assms by (auto simp: setAlarmState_def postAlarmState_def request_def Let_def)

lemma setAlarmState_keeps_lockout:
  "timers (snd (setAlarmState now newState s)) = timers s"
  "nextTimerId (snd (setAlarmState now newState s)) = nextTimerId s"
  "sensorRefreshLockoutTimeout (snd (setAlarmState now newState s)) = sensorRefreshLockoutTimeout s"
  "sensorRefreshLockoutEnabled (snd (setAlarmState now newState s)) = sensorRefreshLockoutEnabled s"
  by (simp_all add: setAlarmState_def postAlarmState_def request_def settle_def Let_def split_beta)

theorem accepted_state_change_arms_lockout_witness:
  "awaited (requestResponse 100 0 (Success emptyBody)
      (snd (setAlarmState 0 ''AWAY''
         ((initial 15000)\<lparr>subId := Some 7, sensorRefreshLockoutEnabled := True\<rparr>)))) 0
     = Some (Inr emptyBody)
   \<and> timers (requestResponse 100 0 (Success emptyBody)
      (snd (setAlarmState 0 ''AWAY''
         ((initial 15000)\<lparr>subId := Some 7, sensorRefreshLockoutEnabled := True\<rparr>))))
     = [(0, 15100, LockoutExpire)]"
proof -
  let ?ini = "(initial 15000)\<lparr>subId := Some 7, sensorRefreshLockoutEnabled := True\<rparr>"
  let ?st = "snd (setAlarmState 0 ''AWAY'' ?ini)"
  have v: "toLowerCase ''AWAY'' \<in> set validAlarmStates" by code_simp
  have t: "truthy (subId ?ini)" "\<not> (isBlocked ?ini \<and> 0 < nextAttempt ?ini)"
    and h: "nextHandle ?ini = 0"
    by (simp_all add: truthy_def initial_def)
  note p = setAlarmState_promise(2) [OF v t, unfolded h]
  have f: "timers ?st = []" "nextTimerId ?st = 0" "sensorRefreshLockoutTimeout ?st = None"
    "sensorRefreshLockoutEnabled ?st"
    by (simp_all add: setAlarmState_keeps_lockout initial_def)
  let ?p = "\<lparr>params = PostAlarmState (subId ?ini) (toLowerCase ''AWAY''),
              continuation = AlarmState, pstate = InFlight False\<rparr>"
  have pc: "continuation ?p = AlarmState" "pstate ?p = InFlight False" by simp_all
  from accepted_state_change_arms_lockout [OF p pc refl, of 100 emptyBody] f(4)
  have "awaited (requestResponse 100 0 (Success emptyBody) ?st) 0 = Some (Inr emptyBody)"
    and "timers (requestResponse 100 0 (Success emptyBody) ?st)
          = filter (\<lambda>t. Some (fst t) \<noteq> sensorRefreshLockoutTimeout ?st) (timers ?st)
            @ [(nextTimerId ?st, 100 + 15000, LockoutExpire)]"
    by blast+
  note r = this [unfolded f(1,2,3)]
  show ?thesis using r by simp
qed

section \<open>Callers sharing one subscription request\<close>











































section \<open>Retries of the alarm's set-target-state operation\<close>








end
